theory Spec2Isabelle
  imports Complex_Main "HOL-Library.Signed_Division"
begin

section \<open>The maxout operator: shape inference (paddle/fluid/operators/maxout_op.cc)\<close>

subsection \<open>The shape-inference context\<close>

text \<open>
  A \<open>framework::DDim\<close> is a sequence of \<open>int64_t\<close> extents. The only arithmetic the operator
  does on an extent is one division by \<open>groups\<close>, after \<open>groups > 1\<close> has been enforced, so
  the quotient is never larger in magnitude than the dividend and no 64-bit overflow can occur:
  extents are modelled as \<open>int\<close>. The attribute type \<open>int\<close> is promoted to \<open>int64_t\<close> in that
  division, which preserves its value.
\<close>

type_synonym DDim = "int list"

text \<open>
  Every \<open>PADDLE_ENFORCE\<close>, \<open>PADDLE_ENFORCE_EQ\<close> and \<open>PADDLE_ENFORCE_GT\<close> that fails throws the
  same exception, \<open>platform::EnforceNotMet\<close>, carrying the message given at the call.
  \<open>OutOfRange i\<close> records an access at index \<open>i\<close> outside a container through an unchecked
  \<open>operator[]\<close>: the C++ program has no defined result there.
\<close>

datatype error = EnforceNotMet string | OutOfRange int

text \<open>
  What \<open>framework::InferShapeContext\<close> exposes to the operator: the extents of the variables
  bound to the input slots, the output slots with the extents written so far, and the
  attribute map. A slot is present exactly when it is in the domain of its map.
\<close>

record InferShapeContext =
  inputs :: "string \<rightharpoonup> DDim"
  outputs :: "string \<rightharpoonup> DDim"
  attrs :: "string \<rightharpoonup> int"

definition bindE :: "error + 'a \<Rightarrow> ('a \<Rightarrow> error + 'b) \<Rightarrow> error + 'b" where
  "bindE r f = (case r of Inl e \<Rightarrow> Inl e | Inr v \<Rightarrow> f v)"

definition PADDLE_ENFORCE :: "bool \<Rightarrow> string \<Rightarrow> error + unit" where
  "PADDLE_ENFORCE cond msg = (if cond then Inr () else Inl (EnforceNotMet msg))"

definition HasInput :: "InferShapeContext \<Rightarrow> string \<Rightarrow> bool" where
  "HasInput ctx name = (inputs ctx name \<noteq> None)"

definition HasOutput :: "InferShapeContext \<Rightarrow> string \<Rightarrow> bool" where
  "HasOutput ctx name = (outputs ctx name \<noteq> None)"

text \<open>
  \<open>GetInputDim\<close> and \<open>Attrs().Get<int>\<close> belong to the framework. Both are only defined on a
  name that is bound; on any other name the framework enforces and throws.
\<close>

definition GetInputDim :: "InferShapeContext \<Rightarrow> string \<Rightarrow> error + DDim" where
  "GetInputDim ctx name =
     (case inputs ctx name of
        None \<Rightarrow> Inl (EnforceNotMet (''Input '' @ name @ '' is not bound''))
      | Some d \<Rightarrow> Inr d)"

definition Attrs_Get :: "InferShapeContext \<Rightarrow> string \<Rightarrow> error + int" where
  "Attrs_Get ctx name =
     (case attrs ctx name of
        None \<Rightarrow> Inl (EnforceNotMet (name @ '' should be in AttributeMap''))
      | Some v \<Rightarrow> Inr v)"

definition SetOutputDim :: "InferShapeContext \<Rightarrow> string \<Rightarrow> DDim \<Rightarrow> InferShapeContext" where
  "SetOutputDim ctx name d = ctx\<lparr>outputs := (outputs ctx)(name \<mapsto> d)\<rparr>"

definition make_ddim :: "int list \<Rightarrow> DDim" where
  "make_ddim v = v"

definition GradVarName :: "string \<Rightarrow> string" where
  "GradVarName name = name @ ''@GRAD''"

text \<open>\<open>in_x_dims[i]\<close>: reading extent \<open>i\<close> of a \<open>DDim\<close>.\<close>

definition DDim_at :: "DDim \<Rightarrow> int \<Rightarrow> error + int" where
  "DDim_at d i = (if 0 \<le> i \<and> i < int (length d) then Inr (d ! nat i) else Inl (OutOfRange i))"

text \<open>\<open>v[i] = x\<close> on a \<open>std::vector<int64_t>\<close>.\<close>

definition vector_set :: "int list \<Rightarrow> int \<Rightarrow> int \<Rightarrow> error + int list" where
  "vector_set v i x = (if 0 \<le> i \<and> i < int (length v) then Inr (v[nat i := x]) else Inl (OutOfRange i))"

subsection \<open>MaxOutOp::InferShape\<close>

text \<open>
  The statements of the method, in their order. The quotient \<open>in_x_dims[axis] / groups\<close> is the
  C++ one, which truncates towards zero (\<open>sdiv\<close>).
\<close>

definition MaxOutOp_InferShape :: "InferShapeContext \<Rightarrow> error + InferShapeContext" where
  "MaxOutOp_InferShape ctx =
     bindE (PADDLE_ENFORCE (HasInput ctx ''X'' = True)
              ''Input(X) of MaxoutOpshould not be null.'') (\<lambda>_.
     bindE (PADDLE_ENFORCE (HasOutput ctx ''Out'' = True)
              ''Output(Out) of MaxoutOp should not be null.'') (\<lambda>_.
     bindE (GetInputDim ctx ''X'') (\<lambda>in_x_dims.
     bindE (Attrs_Get ctx ''groups'') (\<lambda>groups.
     bindE (Attrs_Get ctx ''axis'') (\<lambda>axis.
     bindE (PADDLE_ENFORCE (groups > 1)
              ''Attr(groups) of Op(maxout) should be larger than 1.'') (\<lambda>_.
     bindE (DDim_at in_x_dims 0) (\<lambda>d0.
     bindE (DDim_at in_x_dims 1) (\<lambda>d1.
     bindE (DDim_at in_x_dims 2) (\<lambda>d2.
     bindE (DDim_at in_x_dims 3) (\<lambda>d3.
     bindE (DDim_at in_x_dims axis) (\<lambda>q.
     bindE (vector_set [d0, d1, d2, d3] axis (q sdiv groups)) (\<lambda>output_shape.
     Inr (SetOutputDim ctx ''Out'' (make_ddim output_shape))))))))))))))"

subsection \<open>MaxOutOpGrad::InferShape\<close>

definition MaxOutOpGrad_InferShape :: "InferShapeContext \<Rightarrow> error + InferShapeContext" where
  "MaxOutOpGrad_InferShape ctx =
     bindE (PADDLE_ENFORCE (HasInput ctx ''X'')
              ''Input(X) of MaxOutOpGrad must not be null.'') (\<lambda>_.
     bindE (PADDLE_ENFORCE (HasOutput ctx (GradVarName ''X''))
              ''Output(Grad@X) of MaxOutOpGrad should not be null.'') (\<lambda>_.
     bindE (GetInputDim ctx ''X'') (\<lambda>d.
     Inr (SetOutputDim ctx (GradVarName ''X'') d))))"

section \<open>The maxout operator: forward values\<close>

text \<open>
  The registered kernel \<open>MaxOutKernel\<close> and the functor it calls are declared in
  \<open>maxout_op.h\<close> and the math library, outside this file. What they compute is fixed here by
  the formula of the operator's documentation (\<open>AddComment\<close> in \<open>MaxOutOpMaker::Make\<close>):
  \<open>y[s*i + j] = max over k of x[g*s*i + s*k + j]\<close> with \<open>g = groups\<close>,
  \<open>s = input.size / num_channels\<close>, \<open>0 \<le> i < num_channels / groups\<close>, \<open>0 \<le> j < s\<close> and
  \<open>0 \<le> k < groups\<close>, over the flattened tensor. The elements are \<open>float\<close>; a maximum only
  compares and returns one of its arguments, so on values that are numbers nothing is
  rounded, and the elements are modelled as reals.
\<close>

text \<open>
  Modelled from the spec: the read of one element of the flattened input by the forward
  kernel (not in the sources). A position outside the tensor holds no element.
\<close>

definition x_at :: "real list \<Rightarrow> nat \<Rightarrow> real option" where
  "x_at x n = (if n < length x then Some (x ! n) else None)"

text \<open>
  Modelled from the spec: the reduction of the forward kernel (not in the sources), the
  maximum over the candidates of one output element, taken one candidate after the other.
\<close>

fun running_max :: "real \<Rightarrow> real option list \<Rightarrow> real option" where
  "running_max ele [] = Some ele"
| "running_max ele (None # rs) = None"
| "running_max ele (Some v # rs) = running_max (if ele > v then ele else v) rs"

text \<open>
  Modelled from the spec: one output element of the forward kernel (not in the sources), the
  maximum over the \<open>groups\<close> input values at \<open>g*s*i + s*k + j\<close>, \<open>0 \<le> k < groups\<close>.
\<close>

definition maxout_elem :: "real list \<Rightarrow> nat \<Rightarrow> nat \<Rightarrow> nat \<Rightarrow> nat \<Rightarrow> real option" where
  "maxout_elem x g s i j =
     (case map (\<lambda>k. x_at x (g * s * i + s * k + j)) [0..<g] of
        [] \<Rightarrow> None
      | None # rs \<Rightarrow> None
      | Some v # rs \<Rightarrow> running_max v rs)"

text \<open>
  Modelled from the spec: the forward kernel \<open>MaxOutKernel\<close> (not in the sources) on the
  flattened input \<open>x\<close>. The output is filled in the order of its flattened index \<open>s*i + j\<close>:
  for each \<open>i\<close>, for each \<open>j\<close>. Both quotients of the formula divide by an attribute or an
  extent; the kernel has no result when one of them is zero.
\<close>

definition MaxOut_forward :: "nat \<Rightarrow> nat \<Rightarrow> real list \<Rightarrow> real list option" where
  "MaxOut_forward groups num_channels x =
     (if groups = 0 \<or> num_channels = 0 then None
      else let s = length x div num_channels in
        those (concat (map (\<lambda>i. map (\<lambda>j. maxout_elem x groups s i j) [0..<s])
                 [0..<num_channels div groups])))"

section \<open>Concrete contexts\<close>

definition mk_ctx :: "DDim \<Rightarrow> int \<Rightarrow> int \<Rightarrow> InferShapeContext" where
  "mk_ctx S g a =
     \<lparr>inputs = [''X'' \<mapsto> S], outputs = [''Out'' \<mapsto> []],
      attrs = [''groups'' \<mapsto> g, ''axis'' \<mapsto> a]\<rparr>"

definition mk_grad_ctx :: "DDim \<Rightarrow> (string \<rightharpoonup> int) \<Rightarrow> InferShapeContext" where
  "mk_grad_ctx S as = \<lparr>inputs = [''X'' \<mapsto> S], outputs = [''X@GRAD'' \<mapsto> []], attrs = as\<rparr>"

section \<open>Properties of the forward shape inference\<close>

lemma rank4_cases:
  assumes "length (S :: int list) = 4"
  obtains s0 s1 s2 s3 where "S = [s0, s1, s2, s3]"
  using assms by (auto simp: length_Suc_conv numeral_eq_Suc)

lemma DDim_at_4:
  "0 \<le> a \<Longrightarrow> a < 4 \<Longrightarrow> length S = 4 \<Longrightarrow> DDim_at S a = Inr (S ! nat a)"
  by (simp add: DDim_at_def)

lemma DDim_at_list4:
  "DDim_at [s0, s1, s2, s3] 0 = Inr s0" "DDim_at [s0, s1, s2, s3] 1 = Inr s1"
  "DDim_at [s0, s1, s2, s3] 2 = Inr s2" "DDim_at [s0, s1, s2, s3] 3 = Inr s3"
  by (simp_all add: DDim_at_def)

lemma InferShape_rank4:
  assumes "inputs ctx ''X'' = Some S" and "length S = 4"
    and "outputs ctx ''Out'' = Some d"
    and "attrs ctx ''groups'' = Some g" and "attrs ctx ''axis'' = Some a"
    and "1 < g"
  shows "MaxOutOp_InferShape ctx =
           bindE (DDim_at S a) (\<lambda>q.
           bindE (vector_set S a (q sdiv g)) (\<lambda>output_shape.
           Inr (SetOutputDim ctx ''Out'' output_shape)))"
proof -
  from assms(2) obtain s0 s1 s2 s3 where S: "S = [s0, s1, s2, s3]"
    by (rule rank4_cases)
  show ?thesis
    using assms(1,3-6) unfolding S MaxOutOp_InferShape_def
    by (simp add: bindE_def PADDLE_ENFORCE_def HasInput_def HasOutput_def GetInputDim_def
        Attrs_Get_def DDim_at_list4 make_ddim_def)
qed

text \<open>
  C1. For a rank-4 input shape \<open>S\<close>, \<open>groups > 1\<close> and \<open>axis\<close> an index of \<open>S\<close> (both slots
  present), the forward shape inference succeeds and writes to \<open>Out\<close> the shape that is \<open>S\<close>
  in every dimension except \<open>axis\<close>, where it is the integer quotient \<open>S[axis] / groups\<close>
  (the truncating quotient of C++; on a non-negative extent it is \<open>div\<close>).
\<close>

theorem InferShape_output_shape:
  assumes "inputs ctx ''X'' = Some S" and "length S = 4"
    and "outputs ctx ''Out'' = Some d"
    and "attrs ctx ''groups'' = Some g" and "attrs ctx ''axis'' = Some a"
    and "1 < g" and "0 \<le> a" and "a < 4"
  shows "\<exists>S'. MaxOutOp_InferShape ctx = Inr (ctx\<lparr>outputs := (outputs ctx)(''Out'' \<mapsto> S')\<rparr>)
           \<and> length S' = length S
           \<and> S' ! nat a = (S ! nat a) sdiv g
           \<and> (0 \<le> S ! nat a \<longrightarrow> S' ! nat a = (S ! nat a) div g)
           \<and> (\<forall>i < 4. i \<noteq> nat a \<longrightarrow> S' ! i = S ! i)"
proof -
  let ?S' = "S[nat a := (S ! nat a) sdiv g]"
  have run: "MaxOutOp_InferShape ctx = Inr (ctx\<lparr>outputs := (outputs ctx)(''Out'' \<mapsto> ?S')\<rparr>)"
    using assms
    by (simp add: InferShape_rank4 [OF assms(1-6)] DDim_at_4 vector_set_def bindE_def
        SetOutputDim_def)
  have at: "?S' ! nat a = (S ! nat a) sdiv g"
    using assms by simp
  have nonneg: "0 \<le> S ! nat a \<longrightarrow> (S ! nat a) sdiv g = (S ! nat a) div g"
    using assms by (auto simp: signed_divide_int_def sgn_if)
  have rest: "\<forall>i < 4. i \<noteq> nat a \<longrightarrow> ?S' ! i = S ! i"
    by simp
  show ?thesis
  proof (intro exI [of _ ?S'] conjI)
    show "MaxOutOp_InferShape ctx = Inr (ctx\<lparr>outputs := (outputs ctx)(''Out'' \<mapsto> ?S')\<rparr>)"
      by (rule run)
    show "length ?S' = length S" by simp
    show "?S' ! nat a = (S ! nat a) sdiv g" by (rule at)
    show "0 \<le> S ! nat a \<longrightarrow> ?S' ! nat a = (S ! nat a) div g"
      unfolding at by (rule nonneg)
    show "\<forall>i < 4. i \<noteq> nat a \<longrightarrow> ?S' ! i = S ! i" by (rule rest)
  qed
qed

theorem InferShape_output_shape_witness:
  "MaxOutOp_InferShape (mk_ctx [2, 6, 3, 3] 3 1) =
     Inr ((mk_ctx [2, 6, 3, 3] 3 1)\<lparr>outputs := [''Out'' \<mapsto> [2, 2, 3, 3]]\<rparr>)"
proof -
  let ?c = "mk_ctx [2, 6, 3, 3] 3 1"
  have h: "inputs ?c ''X'' = Some [2, 6, 3, 3]" "length [2, 6, 3, 3 :: int] = 4"
    "outputs ?c ''Out'' = Some []" "attrs ?c ''groups'' = Some 3"
    "attrs ?c ''axis'' = Some 1" "(1::int) < 3" "(0::int) \<le> 1" "(1::int) < 4"
    by (simp_all add: mk_ctx_def)
  from InferShape_output_shape [OF h] obtain S' where
    run: "MaxOutOp_InferShape ?c = Inr (?c\<lparr>outputs := (outputs ?c)(''Out'' \<mapsto> S')\<rparr>)"
    and len: "length S' = 4"
    and ax: "S' ! nat 1 = (6::int) sdiv 3"
    and rest: "\<forall>i < 4. i \<noteq> nat 1 \<longrightarrow> S' ! i = [2, 6, 3, 3 :: int] ! i"
    by auto
  have "S' ! 0 = 2" "S' ! 2 = 3" "S' ! 3 = 3"
    using rest by (auto simp: nth_Cons' numeral_eq_Suc)
  moreover have "S' ! 1 = 2"
    using ax by (simp add: signed_divide_int_def)
  ultimately have "S' = [2, 2, 3, 3]"
    using len by (intro nth_equalityI) (auto simp: nth_Cons' numeral_eq_Suc less_Suc_eq)
  with run show ?thesis
    by (simp add: mk_ctx_def)
qed

text \<open>
  C2 (as the specification states it, refuted). The specification asks the forward shape
  inference to fail when \<open>S[axis]\<close> is not a multiple of \<open>groups\<close>. The method has no such
  check: on the shape \<open>(1, 5, 1, 1)\<close> with \<open>groups = 2\<close> and \<open>axis = 1\<close> it succeeds and writes
  the truncated shape \<open>(1, 2, 1, 1)\<close>.
\<close>

theorem InferShape_indivisible_counterexample:
  "\<not> (2::int) dvd [1, 5, 1, 1] ! 1 \<and>
   MaxOutOp_InferShape (mk_ctx [1, 5, 1, 1] 2 1) =
     Inr ((mk_ctx [1, 5, 1, 1] 2 1)\<lparr>outputs := [''Out'' \<mapsto> [1, 2, 1, 1]]\<rparr>)"
  by (simp add: MaxOutOp_InferShape_def mk_ctx_def bindE_def PADDLE_ENFORCE_def HasInput_def
      HasOutput_def GetInputDim_def Attrs_Get_def DDim_at_def vector_set_def make_ddim_def
      SetOutputDim_def signed_divide_int_def)

text \<open>
  C2 (amended). The forward shape inference does not check divisibility: for a rank-4 shape
  \<open>S\<close>, \<open>groups > 1\<close>, \<open>axis\<close> an index of \<open>S\<close> and both slots present, if \<open>S[axis]\<close> is not a
  multiple of \<open>groups\<close> the method still succeeds, and the extent it writes at \<open>axis\<close> is the
  truncated quotient, which times \<open>groups\<close> does not give \<open>S[axis]\<close> back.
\<close>

theorem InferShape_indivisible_truncates:
  assumes "inputs ctx ''X'' = Some S" and "length S = 4"
    and "outputs ctx ''Out'' = Some d"
    and "attrs ctx ''groups'' = Some g" and "attrs ctx ''axis'' = Some a"
    and "1 < g" and "0 \<le> a" and "a < 4"
    and "\<not> g dvd S ! nat a"
  shows "MaxOutOp_InferShape ctx =
           Inr (ctx\<lparr>outputs := (outputs ctx)(''Out'' \<mapsto> S[nat a := (S ! nat a) sdiv g])\<rparr>)
         \<and> ((S ! nat a) sdiv g) * g \<noteq> S ! nat a"
proof
  show "MaxOutOp_InferShape ctx =
          Inr (ctx\<lparr>outputs := (outputs ctx)(''Out'' \<mapsto> S[nat a := (S ! nat a) sdiv g])\<rparr>)"
    using assms(2,7,8)
    by (simp add: InferShape_rank4 [OF assms(1-6)] DDim_at_4 vector_set_def bindE_def
        SetOutputDim_def)
  show "((S ! nat a) sdiv g) * g \<noteq> S ! nat a"
  proof
    assume "((S ! nat a) sdiv g) * g = S ! nat a"
    then have "g dvd S ! nat a"
      by (metis dvd_triv_right)
    with assms(9) show False by simp
  qed
qed

theorem InferShape_indivisible_truncates_witness:
  "MaxOutOp_InferShape (mk_ctx [1, 5, 1, 1] 2 1) =
     Inr ((mk_ctx [1, 5, 1, 1] 2 1)\<lparr>outputs := [''Out'' \<mapsto> [1, 2, 1, 1]]\<rparr>)
   \<and> (2::int) * 2 \<noteq> 5"
proof -
  let ?c = "mk_ctx [1, 5, 1, 1] 2 1"
  have h: "inputs ?c ''X'' = Some [1, 5, 1, 1]" "length [1, 5, 1, 1 :: int] = 4"
    "outputs ?c ''Out'' = Some []" "attrs ?c ''groups'' = Some 2"
    "attrs ?c ''axis'' = Some 1" "(1::int) < 2" "(0::int) \<le> 1" "(1::int) < 4"
    "\<not> (2::int) dvd [1, 5, 1, 1] ! nat 1"
    by (simp_all add: mk_ctx_def)
  from InferShape_indivisible_truncates [OF h] show ?thesis
    by (simp add: mk_ctx_def signed_divide_int_def)
qed

text \<open>
  C6. The check \<open>groups > 1\<close>. With the attribute \<open>groups\<close> bound to \<open>g \<le> 1\<close> the forward shape
  inference fails; when both slots and the attribute \<open>axis\<close> are there, the failure is the one
  enforced for \<open>groups\<close>, an \<open>EnforceNotMet\<close> raised while the graph is built. For \<open>g > 1\<close> that
  check passes: whatever the method returns, it is not this failure.
\<close>

theorem InferShape_groups_check:
  assumes "attrs ctx ''groups'' = Some g"
  shows "(g \<le> 1 \<longrightarrow> isl (MaxOutOp_InferShape ctx))
       \<and> (g \<le> 1 \<and> inputs ctx ''X'' \<noteq> None \<and> outputs ctx ''Out'' \<noteq> None
            \<and> attrs ctx ''axis'' \<noteq> None \<longrightarrow>
          MaxOutOp_InferShape ctx =
            Inl (EnforceNotMet ''Attr(groups) of Op(maxout) should be larger than 1.''))
       \<and> (1 < g \<longrightarrow>
          MaxOutOp_InferShape ctx \<noteq>
            Inl (EnforceNotMet ''Attr(groups) of Op(maxout) should be larger than 1.''))"
  using assms
  by (auto simp: MaxOutOp_InferShape_def bindE_def PADDLE_ENFORCE_def HasInput_def
      HasOutput_def GetInputDim_def Attrs_Get_def DDim_at_def vector_set_def
      split: sum.splits option.splits if_splits)

theorem InferShape_groups_check_witness:
  "MaxOutOp_InferShape (mk_ctx [2, 6, 3, 3] 1 1) =
     Inl (EnforceNotMet ''Attr(groups) of Op(maxout) should be larger than 1.'')
   \<and> MaxOutOp_InferShape (mk_ctx [2, 6, 3, 3] 0 1) =
     Inl (EnforceNotMet ''Attr(groups) of Op(maxout) should be larger than 1.'')
   \<and> MaxOutOp_InferShape (mk_ctx [2, 6, 3, 3] 2 1) \<noteq>
     Inl (EnforceNotMet ''Attr(groups) of Op(maxout) should be larger than 1.'')"
  using InferShape_groups_check [of "mk_ctx [2, 6, 3, 3] 1 1" 1]
    InferShape_groups_check [of "mk_ctx [2, 6, 3, 3] 0 1" 0]
    InferShape_groups_check [of "mk_ctx [2, 6, 3, 3] 2 1" 2]
  by (simp add: mk_ctx_def)

text \<open>
  C7. The presence checks. The forward shape inference fails when the input slot \<open>X\<close> is
  absent and when the output slot \<open>Out\<close> is absent; the gradient shape inference fails when
  \<open>X\<close> is absent and when the slot of the gradient of \<open>X\<close> is absent. With the slots present,
  neither method returns one of these failures.
\<close>

theorem InferShape_slot_checks:
  "(inputs ctx ''X'' = None \<longrightarrow>
      MaxOutOp_InferShape ctx =
        Inl (EnforceNotMet ''Input(X) of MaxoutOpshould not be null.''))
   \<and> (inputs ctx ''X'' \<noteq> None \<and> outputs ctx ''Out'' = None \<longrightarrow>
      MaxOutOp_InferShape ctx =
        Inl (EnforceNotMet ''Output(Out) of MaxoutOp should not be null.''))
   \<and> (inputs ctx ''X'' \<noteq> None \<and> outputs ctx ''Out'' \<noteq> None \<longrightarrow>
      MaxOutOp_InferShape ctx \<noteq>
        Inl (EnforceNotMet ''Input(X) of MaxoutOpshould not be null.'')
      \<and> MaxOutOp_InferShape ctx \<noteq>
        Inl (EnforceNotMet ''Output(Out) of MaxoutOp should not be null.''))
   \<and> (inputs ctx ''X'' = None \<longrightarrow>
      MaxOutOpGrad_InferShape ctx =
        Inl (EnforceNotMet ''Input(X) of MaxOutOpGrad must not be null.''))
   \<and> (inputs ctx ''X'' \<noteq> None \<and> outputs ctx (GradVarName ''X'') = None \<longrightarrow>
      MaxOutOpGrad_InferShape ctx =
        Inl (EnforceNotMet ''Output(Grad@X) of MaxOutOpGrad should not be null.''))
   \<and> (inputs ctx ''X'' \<noteq> None \<and> outputs ctx (GradVarName ''X'') \<noteq> None \<longrightarrow>
      \<not> isl (MaxOutOpGrad_InferShape ctx))"
  by (auto simp: MaxOutOp_InferShape_def MaxOutOpGrad_InferShape_def bindE_def
      PADDLE_ENFORCE_def HasInput_def HasOutput_def GetInputDim_def Attrs_Get_def DDim_at_def
      vector_set_def split: sum.splits option.splits if_splits)

theorem InferShape_slot_checks_witness:
  "MaxOutOp_InferShape \<lparr>inputs = Map.empty, outputs = [''Out'' \<mapsto> []], attrs = Map.empty\<rparr> =
     Inl (EnforceNotMet ''Input(X) of MaxoutOpshould not be null.'')
   \<and> MaxOutOp_InferShape \<lparr>inputs = [''X'' \<mapsto> [2, 6, 3, 3]], outputs = Map.empty,
        attrs = Map.empty\<rparr> =
     Inl (EnforceNotMet ''Output(Out) of MaxoutOp should not be null.'')
   \<and> MaxOutOp_InferShape (mk_ctx [2, 6, 3, 3] 3 1) \<noteq>
     Inl (EnforceNotMet ''Input(X) of MaxoutOpshould not be null.'')
   \<and> MaxOutOp_InferShape (mk_ctx [2, 6, 3, 3] 3 1) \<noteq>
     Inl (EnforceNotMet ''Output(Out) of MaxoutOp should not be null.'')
   \<and> MaxOutOpGrad_InferShape \<lparr>inputs = Map.empty, outputs = [''X@GRAD'' \<mapsto> []],
        attrs = Map.empty\<rparr> =
     Inl (EnforceNotMet ''Input(X) of MaxOutOpGrad must not be null.'')
   \<and> MaxOutOpGrad_InferShape \<lparr>inputs = [''X'' \<mapsto> [2, 6, 3, 3]], outputs = Map.empty,
        attrs = Map.empty\<rparr> =
     Inl (EnforceNotMet ''Output(Grad@X) of MaxOutOpGrad should not be null.'')
   \<and> \<not> isl (MaxOutOpGrad_InferShape (mk_grad_ctx [2, 6, 3, 3] Map.empty))"
  using
    InferShape_slot_checks [of "\<lparr>inputs = Map.empty, outputs = [''Out'' \<mapsto> []],
      attrs = Map.empty\<rparr>"]
    InferShape_slot_checks [of "\<lparr>inputs = [''X'' \<mapsto> [2, 6, 3, 3]], outputs = Map.empty,
      attrs = Map.empty\<rparr>"]
    InferShape_slot_checks [of "mk_ctx [2, 6, 3, 3] 3 1"]
    InferShape_slot_checks [of "\<lparr>inputs = Map.empty, outputs = [''X@GRAD'' \<mapsto> []],
      attrs = Map.empty\<rparr>"]
    InferShape_slot_checks [of "mk_grad_ctx [2, 6, 3, 3] Map.empty"]
  by (simp add: mk_ctx_def mk_grad_ctx_def GradVarName_def)

text \<open>
  C9. The attribute \<open>axis\<close> is used as it is read, neither checked nor normalised. On a rank-4
  input with both slots present and \<open>groups > 1\<close>, the forward shape inference returns a shape
  exactly when \<open>0 \<le> axis \<le> 3\<close>. For every other value, \<open>axis = -1\<close> among them, no enforce is
  raised: the method runs into an access outside its containers, and the write
  \<open>output_shape[axis]\<close> is outside every vector of four elements.
\<close>

theorem InferShape_axis_unchecked:
  assumes "inputs ctx ''X'' = Some S" and "length S = 4"
    and "outputs ctx ''Out'' = Some d"
    and "attrs ctx ''groups'' = Some g" and "attrs ctx ''axis'' = Some a"
    and "1 < g"
  shows "(\<not> isl (MaxOutOp_InferShape ctx) \<longleftrightarrow> 0 \<le> a \<and> a \<le> 3)
       \<and> (\<not> (0 \<le> a \<and> a \<le> 3) \<longrightarrow>
            MaxOutOp_InferShape ctx = Inl (OutOfRange a)
            \<and> (\<forall>v x. length v = 4 \<longrightarrow> vector_set v a x = Inl (OutOfRange a)))"
  unfolding InferShape_rank4 [OF assms]
  using assms(2) by (auto simp: DDim_at_def vector_set_def bindE_def)

theorem InferShape_axis_unchecked_witness:
  "MaxOutOp_InferShape (mk_ctx [2, 3, 3, 6] 3 (- 1)) = Inl (OutOfRange (- 1))
   \<and> vector_set [2, 3, 3, 6] (- 1) 2 = Inl (OutOfRange (- 1))
   \<and> MaxOutOp_InferShape (mk_ctx [2, 3, 3, 6] 3 4) = Inl (OutOfRange 4)
   \<and> \<not> isl (MaxOutOp_InferShape (mk_ctx [2, 3, 3, 6] 3 3))"
proof -
  have h1: "inputs (mk_ctx [2, 3, 3, 6] 3 a) ''X'' = Some [2, 3, 3, 6]" for a
    by (simp add: mk_ctx_def)
  have h2: "length [2, 3, 3, 6 :: int] = 4"
    by simp
  have h3: "outputs (mk_ctx [2, 3, 3, 6] 3 a) ''Out'' = Some []" for a
    by (simp add: mk_ctx_def)
  have h4: "attrs (mk_ctx [2, 3, 3, 6] 3 a) ''groups'' = Some 3" for a
    by (simp add: mk_ctx_def)
  have h5: "attrs (mk_ctx [2, 3, 3, 6] 3 a) ''axis'' = Some a" for a
    by (simp add: mk_ctx_def)
  have h6: "(1::int) < 3"
    by simp
  have r: "(\<not> isl (MaxOutOp_InferShape (mk_ctx [2, 3, 3, 6] 3 a)) \<longleftrightarrow> 0 \<le> a \<and> a \<le> 3)
       \<and> (\<not> (0 \<le> a \<and> a \<le> 3) \<longrightarrow>
            MaxOutOp_InferShape (mk_ctx [2, 3, 3, 6] 3 a) = Inl (OutOfRange a)
            \<and> (\<forall>v x. length v = 4 \<longrightarrow> vector_set v a x = Inl (OutOfRange a)))" for a
    by (rule InferShape_axis_unchecked [OF h1 h2 h3 h4 h5 h6])
  have "MaxOutOp_InferShape (mk_ctx [2, 3, 3, 6] 3 (- 1)) = Inl (OutOfRange (- 1))"
    using r [of "- 1"] by simp
  moreover have "vector_set [2, 3, 3, 6] (- 1) 2 = Inl (OutOfRange (- 1))"
    using r [of "- 1"] by simp
  moreover have "MaxOutOp_InferShape (mk_ctx [2, 3, 3, 6] 3 4) = Inl (OutOfRange 4)"
    using r [of 4] by simp
  moreover have "\<not> isl (MaxOutOp_InferShape (mk_ctx [2, 3, 3, 6] 3 3))"
    using r [of 3] by simp
  ultimately show ?thesis by simp
qed

section \<open>Properties of the gradient shape inference\<close>

text \<open>
  C5. When the input \<open>X\<close> and the output slot of its gradient are both present, the gradient
  shape inference gives the gradient of \<open>X\<close> the shape of \<open>X\<close>, and changes nothing else.
\<close>

theorem Grad_InferShape_copies_shape:
  assumes "inputs ctx ''X'' = Some S" and "outputs ctx (GradVarName ''X'') = Some d"
  shows "MaxOutOpGrad_InferShape ctx =
           Inr (ctx\<lparr>outputs := (outputs ctx)(GradVarName ''X'' \<mapsto> S)\<rparr>)"
  using assms
  by (simp add: MaxOutOpGrad_InferShape_def bindE_def PADDLE_ENFORCE_def HasInput_def
      HasOutput_def GetInputDim_def SetOutputDim_def)

theorem Grad_InferShape_copies_shape_witness:
  "MaxOutOpGrad_InferShape (mk_grad_ctx [2, 6, 3, 3] [''groups'' \<mapsto> 3, ''axis'' \<mapsto> 1]) =
     Inr ((mk_grad_ctx [2, 6, 3, 3] [''groups'' \<mapsto> 3, ''axis'' \<mapsto> 1])
            \<lparr>outputs := [''X@GRAD'' \<mapsto> [2, 6, 3, 3]]\<rparr>)"
  using Grad_InferShape_copies_shape
    [of "mk_grad_ctx [2, 6, 3, 3] [''groups'' \<mapsto> 3, ''axis'' \<mapsto> 1]" "[2, 6, 3, 3]" "[]"]
  by (simp add: mk_grad_ctx_def GradVarName_def)

text \<open>
  C10. The gradient shape inference depends on the two slots only. It fails exactly when \<open>X\<close>
  or the slot of its gradient is absent; otherwise it succeeds and copies the shape of \<open>X\<close>,
  of whatever rank, to that slot. The attributes are not read: replacing the attribute map
  changes nothing but the attribute map of the context returned.
\<close>

theorem Grad_InferShape_slots_only:
  "(isl (MaxOutOpGrad_InferShape ctx) \<longleftrightarrow>
      inputs ctx ''X'' = None \<or> outputs ctx (GradVarName ''X'') = None)
   \<and> (\<forall>S. inputs ctx ''X'' = Some S \<and> outputs ctx (GradVarName ''X'') \<noteq> None \<longrightarrow>
        MaxOutOpGrad_InferShape ctx =
          Inr (ctx\<lparr>outputs := (outputs ctx)(GradVarName ''X'' \<mapsto> S)\<rparr>))
   \<and> MaxOutOpGrad_InferShape (ctx\<lparr>attrs := as\<rparr>) =
       map_sum id (\<lambda>c. c\<lparr>attrs := as\<rparr>) (MaxOutOpGrad_InferShape ctx)"
  by (auto simp: MaxOutOpGrad_InferShape_def bindE_def PADDLE_ENFORCE_def HasInput_def
      HasOutput_def GetInputDim_def SetOutputDim_def split: option.splits)

theorem Grad_InferShape_slots_only_witness:
  "MaxOutOpGrad_InferShape (mk_grad_ctx [7, 5] Map.empty) =
     Inr ((mk_grad_ctx [7, 5] Map.empty)\<lparr>outputs := [''X@GRAD'' \<mapsto> [7, 5]]\<rparr>)
   \<and> MaxOutOpGrad_InferShape (mk_grad_ctx [7, 5] [''groups'' \<mapsto> 0, ''axis'' \<mapsto> 9]) =
     Inr ((mk_grad_ctx [7, 5] [''groups'' \<mapsto> 0, ''axis'' \<mapsto> 9])
            \<lparr>outputs := [''X@GRAD'' \<mapsto> [7, 5]]\<rparr>)
   \<and> isl (MaxOutOpGrad_InferShape \<lparr>inputs = [''X'' \<mapsto> [7, 5]], outputs = Map.empty,
        attrs = Map.empty\<rparr>)
   \<and> isl (MaxOutOpGrad_InferShape \<lparr>inputs = Map.empty, outputs = [''X@GRAD'' \<mapsto> []],
        attrs = Map.empty\<rparr>)"
proof -
  let ?c1 = "mk_grad_ctx [7, 5] Map.empty"
  let ?c2 = "mk_grad_ctx [7, 5] [''groups'' \<mapsto> 0, ''axis'' \<mapsto> 9]"
  let ?c3 = "\<lparr>inputs = [''X'' \<mapsto> [7, 5]], outputs = Map.empty, attrs = Map.empty\<rparr>"
  let ?c4 = "\<lparr>inputs = Map.empty, outputs = [''X@GRAD'' \<mapsto> []], attrs = Map.empty\<rparr>"
  have "MaxOutOpGrad_InferShape ?c1 = Inr (?c1\<lparr>outputs := [''X@GRAD'' \<mapsto> [7, 5]]\<rparr>)"
    using Grad_InferShape_slots_only [of ?c1 Map.empty, THEN conjunct2, THEN conjunct1]
    by (simp add: mk_grad_ctx_def GradVarName_def)
  moreover have "MaxOutOpGrad_InferShape ?c2 = Inr (?c2\<lparr>outputs := [''X@GRAD'' \<mapsto> [7, 5]]\<rparr>)"
    using Grad_InferShape_slots_only [of ?c2 Map.empty, THEN conjunct2, THEN conjunct1]
    by (simp add: mk_grad_ctx_def GradVarName_def)
  moreover have "isl (MaxOutOpGrad_InferShape ?c3)"
    using Grad_InferShape_slots_only [of ?c3 Map.empty, THEN conjunct1]
    by (simp add: GradVarName_def)
  moreover have "isl (MaxOutOpGrad_InferShape ?c4)"
    using Grad_InferShape_slots_only [of ?c4 Map.empty, THEN conjunct1]
    by (simp add: GradVarName_def)
  ultimately show ?thesis by simp
qed

section \<open>Properties of the forward values\<close>

lemma running_max_Some:
  "running_max v (map Some vs) = Some (Max (insert v (set vs)))"
proof (induction vs arbitrary: v)
  case Nil
  show ?case by simp
next
  case (Cons a vs)
  have step: "running_max v (map Some (a # vs)) = running_max (max v a) (map Some vs)"
    by (simp add: max_def)
  have "Max (insert (max v a) (set vs)) = Max (insert v (insert a (set vs)))"
  proof (cases "set vs = {}")
    case True
    then show ?thesis by simp
  next
    case False
    then show ?thesis by (simp add: max.assoc)
  qed
  then show ?case
    unfolding step Cons.IH [of "max v a"] by simp
qed

lemma those_map_Some: "those (map Some ys) = Some ys"
  by (induction ys) simp_all

lemma row_as_range:
  "map (F n) [0..<s] = map (\<lambda>q. F (q div s) (q mod s)) [s * n..<s * n + s]"
proof (rule nth_equalityI)
  show "length (map (F n) [0..<s]) = length (map (\<lambda>q. F (q div s) (q mod s)) [s * n..<s * n + s])"
    by simp
next
  fix j assume "j < length (map (F n) [0..<s])"
  then have j: "j < s" by simp
  then have "(s * n + j) div s = n" "(s * n + j) mod s = j"
    by simp_all
  with j show "map (F n) [0..<s] ! j = map (\<lambda>q. F (q div s) (q mod s)) [s * n..<s * n + s] ! j"
    by simp
qed

lemma upt_rows: "[0..<s * Suc n] = [0..<s * n] @ [s * n..<s * n + s]"
proof -
  have "[0..<s * n + s] = [0..<s * n] @ [s * n..<s * n + s]"
    by (rule upt_add_eq_append) simp
  then show ?thesis by (simp add: add.commute)
qed

lemma concat_rows:
  "concat (map (\<lambda>i. map (F i) [0..<s]) [0..<n]) =
     map (\<lambda>q. F (q div s) (q mod s)) [0..<s * n]"
proof (induction n)
  case 0
  show ?case by simp
next
  case (Suc n)
  let ?G = "\<lambda>q. F (q div s) (q mod s)"
  have "concat (map (\<lambda>i. map (F i) [0..<s]) [0..<Suc n]) =
          concat (map (\<lambda>i. map (F i) [0..<s]) [0..<n]) @ map (F n) [0..<s]"
    by simp
  also have "\<dots> = map ?G [0..<s * n] @ map ?G [s * n..<s * n + s]"
    by (simp only: Suc.IH row_as_range [of F n s])
  also have "\<dots> = map ?G ([0..<s * n] @ [s * n..<s * n + s])"
    by (simp only: map_append)
  also have "\<dots> = map ?G [0..<s * Suc n]"
    by (simp only: upt_rows)
  finally show ?case .
qed

lemma candidate_in_range:
  assumes "i < C div g" and "j < s" and "k < g" and "s = length x div C"
  shows "g * s * i + s * k + j < length x"
proof -
  have "g * s * i + s * k + j < g * s * i + s * k + s"
    using assms(2) by simp
  also have "\<dots> = s * (g * i + Suc k)"
    by (simp add: algebra_simps)
  also have "\<dots> \<le> s * (g * i + g)"
    using assms(3) by (intro mult_le_mono2) simp
  also have "\<dots> = s * (g * Suc i)"
    by simp
  also have "\<dots> \<le> s * (g * (C div g))"
    using assms(1) by (intro mult_le_mono2) simp
  also have "\<dots> \<le> s * C"
    by (intro mult_le_mono2) simp
  also have "\<dots> \<le> length x"
    unfolding assms(4) by (simp add: mult.commute)
  finally show ?thesis .
qed

lemma maxout_elem_Max:
  assumes "0 < g" and "\<forall>k < g. g * s * i + s * k + j < length x"
  shows "maxout_elem x g s i j = Some (Max ((\<lambda>k. x ! (g * s * i + s * k + j)) ` {..<g}))"
proof -
  let ?h = "\<lambda>k. x ! (g * s * i + s * k + j)"
  have reads: "map (\<lambda>k. x_at x (g * s * i + s * k + j)) [0..<g] = map (\<lambda>k. Some (?h k)) [0..<g]"
    using assms(2) by (intro map_cong) (simp_all add: x_at_def)
  have "[0..<g] = 0 # [Suc 0..<g]"
    using assms(1) by (simp add: upt_conv_Cons)
  then have "map (\<lambda>k. Some (?h k)) [0..<g] = Some (?h 0) # map Some (map ?h [Suc 0..<g])"
    by simp
  then have "maxout_elem x g s i j = running_max (?h 0) (map Some (map ?h [Suc 0..<g]))"
    unfolding maxout_elem_def reads by simp
  also have "\<dots> = Some (Max (insert (?h 0) (set (map ?h [Suc 0..<g]))))"
    by (rule running_max_Some)
  also have "set (map ?h [Suc 0..<g]) = ?h ` {Suc 0..<g}"
    by (simp only: set_map set_upt)
  also have "insert (?h 0) (?h ` {Suc 0..<g}) = ?h ` (insert 0 {Suc 0..<g})"
    by simp
  also have "insert 0 {Suc 0..<g} = {..<g}"
    using assms(1) by auto
  finally show ?thesis .
qed

lemma MaxOut_forward_closed:
  assumes "0 < g" and "0 < C" and "s = length x div C"
  shows "MaxOut_forward g C x =
           Some (map (\<lambda>q. Max ((\<lambda>k. x ! (g * s * (q div s) + s * k + q mod s)) ` {..<g}))
                   [0..<s * (C div g)])"
proof -
  let ?M = "\<lambda>q. Max ((\<lambda>k. x ! (g * s * (q div s) + s * k + q mod s)) ` {..<g})"
  have "concat (map (\<lambda>i. map (\<lambda>j. maxout_elem x g s i j) [0..<s]) [0..<C div g]) =
          map (\<lambda>q. maxout_elem x g s (q div s) (q mod s)) [0..<s * (C div g)]"
    by (rule concat_rows)
  also have "\<dots> = map (\<lambda>q. Some (?M q)) [0..<s * (C div g)]"
  proof (rule map_cong [OF refl])
    fix q assume "q \<in> set [0..<s * (C div g)]"
    then have q: "q < s * (C div g)" by simp
    then have "0 < s" by (cases s) simp_all
    then have j: "q mod s < s" by simp
    have i: "q div s < C div g"
      using q by (simp add: less_mult_imp_div_less mult.commute)
    have "\<forall>k < g. g * s * (q div s) + s * k + q mod s < length x"
      using candidate_in_range [OF i j _ assms(3)] by blast
    then show "maxout_elem x g s (q div s) (q mod s) = Some (?M q)"
      by (rule maxout_elem_Max [OF assms(1)])
  qed
  also have "\<dots> = map Some (map ?M [0..<s * (C div g)])"
    by simp
  finally have "those (concat (map (\<lambda>i. map (\<lambda>j. maxout_elem x g s i j) [0..<s]) [0..<C div g])) =
      Some (map ?M [0..<s * (C div g)])"
    by (simp only: those_map_Some)
  then show ?thesis
    using assms(1,2) unfolding MaxOut_forward_def Let_def assms(3) by simp
qed


lemma candidates_distinct:
  assumes "j < (s::nat)"
  shows "inj_on (\<lambda>k. g * s * i + s * k + j) A"
proof (rule inj_onI)
  fix k k' assume "g * s * i + s * k + j = g * s * i + s * k' + j"
  then have "s * k = s * k'" by simp
  with assms show "k = k'" by simp
qed

lemma closed_nth:
  assumes "i < n" and "j < (s::nat)"
  shows "map (\<lambda>q. F (q div s) (q mod s)) [0..<s * n] ! (s * i + j) = F i j"
proof -
  have "s * i + j < s * i + s"
    using assms(2) by simp
  also have "\<dots> = s * Suc i"
    by simp
  also have "\<dots> \<le> s * n"
    using assms(1) by (intro mult_le_mono2) simp
  finally have q: "s * i + j < s * n" .
  have "(s * i + j) div s = i" "(s * i + j) mod s = j"
    using assms(2) by simp_all
  with q show ?thesis
    by simp
qed

lemma MaxOut_forward_formula_aux:
  assumes "0 < g" and "0 < C" and "s = length x div C"
  shows "\<exists>y. MaxOut_forward g C x = Some y \<and> length y = s * (C div g)
           \<and> (\<forall>i < C div g. \<forall>j < s.
                 y ! (s * i + j) = Max ((\<lambda>k. x ! (g * s * i + s * k + j)) ` {..<g}))"
proof -
  let ?F = "\<lambda>i j. Max ((\<lambda>k. x ! (g * s * i + s * k + j)) ` {..<g})"
  let ?y = "map (\<lambda>q. ?F (q div s) (q mod s)) [0..<s * (C div g)]"
  have "MaxOut_forward g C x = Some ?y"
    by (rule MaxOut_forward_closed [OF assms])
  moreover have "length ?y = s * (C div g)"
    by simp
  moreover have "\<forall>i < C div g. \<forall>j < s. ?y ! (s * i + j) = ?F i j"
    using closed_nth [of _ "C div g" _ s ?F] by blast
  ultimately show ?thesis
    by blast
qed

text \<open>
  C4. On a tensor with \<open>groups > 0\<close> and \<open>num_channels > 0\<close> the forward computation returns
  an output of \<open>s * (num_channels / groups)\<close> elements, \<open>s = input.size / num_channels\<close>, and
  for all \<open>0 \<le> i < num_channels / groups\<close> and \<open>0 \<le> j < s\<close> the element at \<open>s*i + j\<close> is the
  maximum of the input elements at \<open>g*s*i + s*k + j\<close>, \<open>0 \<le> k < groups\<close>. These positions lie
  inside the input and are exactly \<open>groups\<close> different ones.
\<close>

theorem MaxOut_forward_formula:
  assumes "0 < g" and "0 < C" and "s = length x div C"
  shows "\<exists>y. MaxOut_forward g C x = Some y \<and> length y = s * (C div g)
           \<and> (\<forall>i < C div g. \<forall>j < s.
                 y ! (s * i + j) = Max ((\<lambda>k. x ! (g * s * i + s * k + j)) ` {..<g})
                 \<and> (\<forall>k < g. g * s * i + s * k + j < length x)
                 \<and> card ((\<lambda>k. g * s * i + s * k + j) ` {..<g}) = g)"
proof -
  from MaxOut_forward_formula_aux [OF assms] obtain y where
    run: "MaxOut_forward g C x = Some y" and len: "length y = s * (C div g)"
    and el: "\<forall>i < C div g. \<forall>j < s.
       y ! (s * i + j) = Max ((\<lambda>k. x ! (g * s * i + s * k + j)) ` {..<g})"
    by blast
  have reads: "\<forall>k < g. g * s * i + s * k + j < length x"
    if "i < C div g" and "j < s" for i j
    using candidate_in_range [OF that _ assms(3)] by blast
  have exactly: "card ((\<lambda>k. g * s * i + s * k + j) ` {..<g}) = g" if "j < s" for i j
    using candidates_distinct [OF that] by (simp add: card_image)
  from run len el reads exactly show ?thesis
    by blast
qed

theorem MaxOut_forward_formula_witness:
  "\<exists>y. MaxOut_forward 2 4 [1, 3, 2, 1/2, 5, 0, 4, 7] = Some y \<and> length y = 4 \<and> y ! 2 = 5"
proof -
  let ?x = "[1, 3, 2, 1/2, 5, 0, 4, 7] :: real list"
  have h: "(0::nat) < 2" "(0::nat) < 4" "(2::nat) = length ?x div 4"
    by simp_all
  from MaxOut_forward_formula [OF h] obtain y where
    run: "MaxOut_forward 2 4 ?x = Some y" and len: "length y = 2 * (4 div 2)"
    and el: "\<forall>i < 4 div 2. \<forall>j < 2.
       y ! (2 * i + j) = Max ((\<lambda>k. ?x ! (2 * 2 * i + 2 * k + j)) ` {..<2})
       \<and> (\<forall>k < 2. 2 * 2 * i + 2 * k + j < length ?x)
       \<and> card ((\<lambda>k. 2 * 2 * i + 2 * k + j) ` {..<2::nat}) = 2"
    by blast
  have "(1::nat) < 4 div 2" "(0::nat) < 2"
    by simp_all
  with el have "y ! (2 * 1 + 0) = Max ((\<lambda>k. ?x ! (2 * 2 * 1 + 2 * k + 0)) ` {..<2})"
    by blast
  moreover have "{..<2::nat} = {0, 1}"
    by auto
  ultimately have "y ! 2 = 5"
    by simp
  with run len show ?thesis
    by simp
qed

text \<open>
  C3 (as the specification states it, refuted). On the input \<open>(1, 4, 1, 1)\<close> with values
  \<open>[1, 3, 2, 0.5]\<close>, \<open>groups = 2\<close> and \<open>axis = 1\<close>, the specification expects the values
  \<open>[max(1, 2), max(3, 0.5)] = [2, 3]\<close>. The formula gives something else: here \<open>s = 1\<close>, so
  the candidates of output \<open>i\<close> are the neighbours \<open>x[2i]\<close> and \<open>x[2i + 1]\<close>.
\<close>

theorem MaxOut_forward_scenario_counterexample:
  "MaxOut_forward 2 4 [1, 3, 2, 1/2] \<noteq> Some [max 1 2, max 3 (1/2)]"
  by code_simp

text \<open>
  C3 (amended). On the input \<open>(1, 4, 1, 1)\<close> with values \<open>[1, 3, 2, 0.5]\<close>, \<open>groups = 2\<close> and
  \<open>axis = 1\<close>, the output shape is \<open>(1, 2, 1, 1)\<close> and the output values are
  \<open>[max(1, 3), max(2, 0.5)] = [3, 2]\<close>.
\<close>

theorem MaxOut_forward_scenario:
  "MaxOutOp_InferShape (mk_ctx [1, 4, 1, 1] 2 1) =
     Inr ((mk_ctx [1, 4, 1, 1] 2 1)\<lparr>outputs := [''Out'' \<mapsto> [1, 2, 1, 1]]\<rparr>)
   \<and> MaxOut_forward 2 4 [1, 3, 2, 1/2] = Some [3, 2]
   \<and> [3, 2] = [max 1 3, max 2 (1/2) :: real]"
proof (intro conjI)
  show "MaxOutOp_InferShape (mk_ctx [1, 4, 1, 1] 2 1) =
          Inr ((mk_ctx [1, 4, 1, 1] 2 1)\<lparr>outputs := [''Out'' \<mapsto> [1, 2, 1, 1]]\<rparr>)"
    by (simp add: MaxOutOp_InferShape_def mk_ctx_def bindE_def PADDLE_ENFORCE_def HasInput_def
        HasOutput_def GetInputDim_def Attrs_Get_def DDim_at_def vector_set_def make_ddim_def
        SetOutputDim_def signed_divide_int_def)
  show "MaxOut_forward 2 4 [1, 3, 2, 1/2] = Some [3, 2]"
    by code_simp
  show "[3, 2] = [max 1 3, max 2 (1/2) :: real]"
    by simp
qed

text \<open>
  C8 (as the specification states it, refuted). Raising one candidate by \<open>\<epsilon> > 0\<close> is
  said to raise the output by exactly \<open>\<epsilon>\<close> or to leave it unchanged. With the candidates
  \<open>1\<close> and \<open>2\<close>, raising the first by \<open>2\<close> takes the output from \<open>2\<close> to \<open>3\<close>: it is neither
  unchanged nor raised by \<open>2\<close>.
\<close>

theorem MaxOut_forward_raise_counterexample:
  "MaxOut_forward 2 2 [1, 2] = Some [2]
   \<and> MaxOut_forward 2 2 ([1, 2][0 := [1, 2] ! 0 + 2]) = Some [3]
   \<and> (3::real) \<noteq> 2 + 2 \<and> (3::real) \<noteq> 2"
  by code_simp

lemma Max_raise_one:
  fixes h :: "nat \<Rightarrow> real"
  assumes "k < g" and "0 < eps"
  shows "Max ((h(k := h k + eps)) ` {..<g}) = max (Max (h ` {..<g})) (h k + eps)"
proof -
  define R where "R = h ` ({..<g} - {k})"
  have fin: "finite R"
    unfolding R_def by simp
  have split: "{..<g} = insert k ({..<g} - {k})"
    using assms(1) by auto
  have "h ` {..<g} = h ` (insert k ({..<g} - {k}))"
    using split by (rule arg_cong)
  then have old: "h ` {..<g} = insert (h k) R"
    unfolding R_def by (simp only: image_insert)
  have "(h(k := h k + eps)) ` {..<g} = (h(k := h k + eps)) ` (insert k ({..<g} - {k}))"
    using split by (rule arg_cong)
  also have "\<dots> = insert (h k + eps) ((h(k := h k + eps)) ` ({..<g} - {k}))"
    by (simp only: image_insert fun_upd_same)
  also have "(h(k := h k + eps)) ` ({..<g} - {k}) = R"
    unfolding R_def by (intro image_cong) simp_all
  finally have new: "(h(k := h k + eps)) ` {..<g} = insert (h k + eps) R" .
  show ?thesis
  proof (cases "R = {}")
    case True
    with assms(2) show ?thesis
      unfolding old new by simp
  next
    case False
    have a: "Max (insert (h k + eps) R) = max (h k + eps) (Max R)"
      by (rule Max_insert [OF fin False])
    have b: "Max (insert (h k) R) = max (h k) (Max R)"
      by (rule Max_insert [OF fin False])
    show ?thesis
      unfolding old new a b using assms(2) by (simp add: max_def)
  qed
qed


text \<open>
  C8 (amended). Raising one of the \<open>groups\<close> candidates of an output element by \<open>\<epsilon> > 0\<close>,
  the others fixed, makes that output element the maximum of its old value and the raised
  candidate. It does not decrease and grows by at most \<open>\<epsilon>\<close>: by exactly \<open>\<epsilon>\<close> when the
  candidate was the maximum, by nothing when the raised candidate is still no larger than
  the old maximum.
\<close>

theorem MaxOut_forward_raise_candidate:
  assumes "0 < g" and "0 < C" and "s = length x div C"
    and "i < C div g" and "j < s" and "k < g" and "0 < eps"
  shows "\<exists>y y'. MaxOut_forward g C x = Some y
           \<and> MaxOut_forward g C
                (x[g * s * i + s * k + j := x ! (g * s * i + s * k + j) + eps]) = Some y'
           \<and> y' ! (s * i + j) = max (y ! (s * i + j)) (x ! (g * s * i + s * k + j) + eps)
           \<and> y ! (s * i + j) \<le> y' ! (s * i + j)
           \<and> y' ! (s * i + j) \<le> y ! (s * i + j) + eps
           \<and> (x ! (g * s * i + s * k + j) = y ! (s * i + j) \<longrightarrow>
                y' ! (s * i + j) = y ! (s * i + j) + eps)
           \<and> (x ! (g * s * i + s * k + j) + eps \<le> y ! (s * i + j) \<longrightarrow>
                y' ! (s * i + j) = y ! (s * i + j))"
proof -
  define n where "n = g * s * i + s * k + j"
  define x' where "x' = x[n := x ! n + eps]"
  define h where "h = (\<lambda>k. x ! (g * s * i + s * k + j))"
  define h' where "h' = (\<lambda>k. x' ! (g * s * i + s * k + j))"
  have s': "s = length x' div C"
    unfolding x'_def using assms(3) by simp
  have n: "n < length x"
    unfolding n_def by (rule candidate_in_range [OF assms(4,5,6,3)])
  have h'_eq: "h' = h(k := h k + eps)"
  proof (rule ext)
    fix k'
    have "g * s * i + s * k' + j = n \<longleftrightarrow> k' = k"
      unfolding n_def using assms(5) by auto
    then show "h' k' = (h(k := h k + eps)) k'"
      unfolding h'_def h_def x'_def using n
      by (auto simp: nth_list_update n_def)
  qed
  from MaxOut_forward_formula_aux [OF assms(1,2,3)] obtain y where
    y: "MaxOut_forward g C x = Some y"
    and yo: "\<forall>i < C div g. \<forall>j < s. y ! (s * i + j) = Max ((\<lambda>k. x ! (g * s * i + s * k + j)) ` {..<g})"
    by blast
  from MaxOut_forward_formula_aux [OF assms(1,2) s'] obtain y' where
    y': "MaxOut_forward g C x' = Some y'"
    and y'o: "\<forall>i < C div g. \<forall>j < s. y' ! (s * i + j) = Max ((\<lambda>k. x' ! (g * s * i + s * k + j)) ` {..<g})"
    by blast
  have old: "y ! (s * i + j) = Max (h ` {..<g})"
    unfolding h_def using yo assms(4,5) by blast
  have "y' ! (s * i + j) = Max (h' ` {..<g})"
    unfolding h'_def using y'o assms(4,5) by blast
  also have "\<dots> = max (Max (h ` {..<g})) (h k + eps)"
    unfolding h'_eq by (rule Max_raise_one [OF assms(6,7)])
  finally have new: "y' ! (s * i + j) = max (y ! (s * i + j)) (h k + eps)"
    unfolding old .
  have "h k \<in> h ` {..<g}"
    using assms(6) by simp
  then have "h k \<le> Max (h ` {..<g})"
    by (intro Max_ge) simp_all
  then have le: "h k \<le> y ! (s * i + j)"
    unfolding old .
  have hk: "h k = x ! (g * s * i + s * k + j)"
    unfolding h_def ..
  show ?thesis
  proof (rule exI [of _ y], rule exI [of _ y'], intro conjI)
    show "MaxOut_forward g C x = Some y" by (rule y)
    show "MaxOut_forward g C
            (x[g * s * i + s * k + j := x ! (g * s * i + s * k + j) + eps]) = Some y'"
      by (rule y' [unfolded x'_def n_def])
    show "y' ! (s * i + j) = max (y ! (s * i + j)) (x ! (g * s * i + s * k + j) + eps)"
      by (rule new [unfolded hk])
    show "y ! (s * i + j) \<le> y' ! (s * i + j)"
      unfolding new by simp
    show "y' ! (s * i + j) \<le> y ! (s * i + j) + eps"
      unfolding new using le assms(7) by simp
    show "x ! (g * s * i + s * k + j) = y ! (s * i + j) \<longrightarrow>
            y' ! (s * i + j) = y ! (s * i + j) + eps"
      unfolding new hk [symmetric] using assms(7) by (simp add: max_def)
    show "x ! (g * s * i + s * k + j) + eps \<le> y ! (s * i + j) \<longrightarrow>
            y' ! (s * i + j) = y ! (s * i + j)"
      unfolding new hk [symmetric] by (simp add: max_def)
  qed
qed

theorem MaxOut_forward_raise_candidate_witness:
  "\<exists>y y'. MaxOut_forward 2 2 [1, 2] = Some y
     \<and> MaxOut_forward 2 2 ([1, 2][0 := [1, 2] ! 0 + 2]) = Some y'
     \<and> y' ! 0 = max (y ! 0) ([1, 2] ! 0 + 2)
     \<and> y ! 0 \<le> y' ! 0 \<and> y' ! 0 \<le> y ! 0 + 2"
proof -
  have h: "(0::nat) < 2" "(0::nat) < 2" "(1::nat) = length [1, 2 :: real] div 2"
    "(0::nat) < 2 div 2" "(0::nat) < 1" "(0::nat) < 2" "(0::real) < 2"
    by simp_all
  from MaxOut_forward_raise_candidate [OF h] show ?thesis
    by simp blast
qed

end
